theory Spec2Isabelle
  imports Complex_Main
begin

section \<open>Values and objects\<close>

text \<open>
  The store is generic over its item type and reads items through dynamic property
  access (\<^verbatim>\<open>item[key]\<close>, \<^verbatim>\<open>item.id\<close>). An item is therefore modelled as a JavaScript
  object: a list of own properties. A property value is a primitive, or a reference
  to another object, which \<^verbatim>\<open>===\<close> compares by identity.
\<close>

datatype jsval =
    Undefined
  | Null
  | Bool bool
  | Num rat
  | NaN
  | Str string
  | Ref nat

type_synonym obj = "(string \<times> jsval) list"

text \<open>\<^verbatim>\<open>o[key]\<close>: the value of the property, \<^verbatim>\<open>undefined\<close> when the object has none.\<close>

definition js_get :: "obj \<Rightarrow> string \<Rightarrow> jsval" where
  "js_get ob key = (case map_of ob key of None \<Rightarrow> Undefined | Some v \<Rightarrow> v)"

text \<open>
  \<^verbatim>\<open>Object.keys(o)\<close>, also the keys that \<^verbatim>\<open>for (const key in o)\<close> visits. The
  callbacks below return the same value in whatever order the keys are visited
  (\<open>matches_keys_all\<close>).
\<close>

definition object_keys :: "obj \<Rightarrow> string list" where
  "object_keys ob = remdups (map fst ob)"

text \<open>\<^verbatim>\<open>a === b\<close> and \<^verbatim>\<open>a !== b\<close>: \<^verbatim>\<open>NaN\<close> is not equal to itself.\<close>

definition strict_eq :: "jsval \<Rightarrow> jsval \<Rightarrow> bool" where
  "strict_eq a b = (a = b \<and> a \<noteq> NaN)"

definition strict_neq :: "jsval \<Rightarrow> jsval \<Rightarrow> bool" where
  "strict_neq a b = (\<not> strict_eq a b)"

section \<open>Array methods\<close>

text \<open>
  \<^verbatim>\<open>Array.prototype.find\<close> and \<^verbatim>\<open>Array.prototype.filter\<close> are \<^const>\<open>List.find\<close> and
  \<^const>\<open>filter\<close>. \<^verbatim>\<open>findIndex\<close> scans from index 0 and returns -1 when no element
  satisfies the callback.
\<close>

fun findIndex_from :: "('a \<Rightarrow> bool) \<Rightarrow> 'a list \<Rightarrow> int \<Rightarrow> int" where
  "findIndex_from p [] k = - 1"
| "findIndex_from p (x # xs) k = (if p x then k else findIndex_from p xs (k + 1))"

definition findIndex :: "('a \<Rightarrow> bool) \<Rightarrow> 'a list \<Rightarrow> int" where
  "findIndex p xs = findIndex_from p xs 0"

text \<open>\<^verbatim>\<open>xs.splice(start, deleteCount)\<close> for \<open>start\<close> within the array: the array afterwards.\<close>

definition splice_arr :: "'a list \<Rightarrow> nat \<Rightarrow> nat \<Rightarrow> 'a list" where
  "splice_arr xs start deleteCount = take start xs @ drop (start + deleteCount) xs"

section \<open>InMemoryDatabase\<close>

record InMemoryDatabase =
  store :: "obj list"

datatype error = Error string

text \<open>
  The callback shared by \<^verbatim>\<open>find\<close> and \<^verbatim>\<open>filter\<close>: a loop over the keys of the
  predicate object that returns false at the first key on which the item differs.
\<close>

fun matches_keys :: "obj \<Rightarrow> obj \<Rightarrow> string list \<Rightarrow> bool" where
  "matches_keys item ob [] = True"
| "matches_keys item ob (key # keys) =
     (if strict_neq (js_get item key) (js_get ob key) then False
      else matches_keys item ob keys)"

definition matches :: "obj \<Rightarrow> obj \<Rightarrow> bool" where
  "matches ob item = matches_keys item ob (object_keys ob)"

text \<open>The callback \<^verbatim>\<open>(item) => item.id === id\<close>.\<close>

definition has_id :: "string \<Rightarrow> obj \<Rightarrow> bool" where
  "has_id ident item = strict_eq (js_get item ''id'') (Str ident)"

definition find_db :: "InMemoryDatabase \<Rightarrow> obj \<Rightarrow> obj option" where
  "find_db db ob = List.find (matches ob) (store db)"

definition findById :: "InMemoryDatabase \<Rightarrow> string \<Rightarrow> obj option" where
  "findById db ident = List.find (has_id ident) (store db)"

text \<open>
  The optional argument of \<^verbatim>\<open>filter\<close> is \<open>None\<close> when omitted. On the first branch
  the method returns the store array itself; the model returns its contents.
\<close>

definition filter_db :: "InMemoryDatabase \<Rightarrow> obj option \<Rightarrow> obj list" where
  "filter_db db arg =
     (case arg of
        None \<Rightarrow> store db
      | Some ob \<Rightarrow>
          if length (object_keys ob) = 0 then store db
          else filter (matches ob) (store db))"

definition create :: "InMemoryDatabase \<Rightarrow> obj \<Rightarrow> InMemoryDatabase" where
  "create db item = db\<lparr>store := store db @ [item]\<rparr>"

text \<open>
  \<^verbatim>\<open>update\<close> and \<^verbatim>\<open>delete\<close> may throw. They return the outcome (the thrown error or
  the returned value) together with the database as it is afterwards.
\<close>

definition update :: "InMemoryDatabase \<Rightarrow> string \<Rightarrow> obj \<Rightarrow> (error + obj) \<times> InMemoryDatabase" where
  "update db ident item =
     (let index = findIndex (has_id ident) (store db)
      in if index = - 1 then (Inl (Error ''Item not found''), db)
         else (Inr item, db\<lparr>store := (store db)[nat index := item]\<rparr>))"

definition delete :: "InMemoryDatabase \<Rightarrow> string \<Rightarrow> (error + unit) \<times> InMemoryDatabase" where
  "delete db ident =
     (let index = findIndex (has_id ident) (store db)
      in if index = - 1 then (Inl (Error ''Item not found''), db)
         else (Inr (), db\<lparr>store := splice_arr (store db) (nat index) 1\<rparr>))"

section \<open>Calls on the database\<close>

text \<open>
  A call of one of the six methods, and what a method hands back. \<open>exec\<close> runs one
  call: it gives the outcome and the database afterwards. \<open>run\<close> performs a sequence
  of calls one after the other; a call that throws leaves the database to the next
  call as the throwing method left it.
\<close>

datatype call =
    Find obj
  | FindById string
  | Filter "obj option"
  | Create obj
  | Update string obj
  | Delete string

datatype ret =
    Found "obj option"
  | Items "obj list"
  | Item obj
  | Void

fun exec :: "call \<Rightarrow> InMemoryDatabase \<Rightarrow> (error + ret) \<times> InMemoryDatabase" where
  "exec (Find ob) db = (Inr (Found (find_db db ob)), db)"
| "exec (FindById ident) db = (Inr (Found (findById db ident)), db)"
| "exec (Filter arg) db = (Inr (Items (filter_db db arg)), db)"
| "exec (Create item) db = (Inr Void, create db item)"
| "exec (Update ident item) db =
     (case update db ident item of
        (Inl e, db') \<Rightarrow> (Inl e, db')
      | (Inr r, db') \<Rightarrow> (Inr (Item r), db'))"
| "exec (Delete ident) db =
     (case delete db ident of
        (Inl e, db') \<Rightarrow> (Inl e, db')
      | (Inr u, db') \<Rightarrow> (Inr Void, db'))"

fun run :: "call list \<Rightarrow> InMemoryDatabase \<Rightarrow> InMemoryDatabase" where
  "run [] db = db"
| "run (c # cs) db = run cs (snd (exec c db))"

text \<open>The calls that only read: \<^verbatim>\<open>find\<close>, \<^verbatim>\<open>findById\<close> and \<^verbatim>\<open>filter\<close>.\<close>

fun is_read :: "call \<Rightarrow> bool" where
  "is_read (Find ob) = True"
| "is_read (FindById ident) = True"
| "is_read (Filter arg) = True"
| "is_read (Create item) = False"
| "is_read (Update ident item) = False"
| "is_read (Delete ident) = False"

text \<open>
  A call disturbs the first record carrying identifier \<open>i\<close> when it is an update or
  a delete addressed to \<open>i\<close>, or an update that succeeds and puts a record carrying
  \<open>i\<close> at a position ahead of that record. A sequence of calls is undisturbed when
  no call disturbs it in the database the call finds.
\<close>

fun disturbs :: "string \<Rightarrow> InMemoryDatabase \<Rightarrow> call \<Rightarrow> bool" where
  "disturbs i db (Update j item) =
     (j = i \<or> (has_id i item \<and> 0 \<le> findIndex (has_id j) (store db)
                \<and> findIndex (has_id j) (store db) < findIndex (has_id i) (store db)))"
| "disturbs i db (Delete j) = (j = i)"
| "disturbs i db (Find ob) = False"
| "disturbs i db (FindById j) = False"
| "disturbs i db (Filter arg) = False"
| "disturbs i db (Create item) = False"

fun undisturbed :: "string \<Rightarrow> call list \<Rightarrow> InMemoryDatabase \<Rightarrow> bool" where
  "undisturbed i [] db = True"
| "undisturbed i (c # cs) db = (\<not> disturbs i db c \<and> undisturbed i cs (snd (exec c db)))"

section \<open>UserAdapterImpl\<close>

record UserAdapterImpl =
  database :: InMemoryDatabase

definition getById :: "UserAdapterImpl \<Rightarrow> string \<Rightarrow> error + obj" where
  "getById ad ident =
     (case findById (database ad) ident of
        None \<Rightarrow> Inl (Error ''User not found'')
      | Some user \<Rightarrow> Inr user)"

definition add :: "UserAdapterImpl \<Rightarrow> obj \<Rightarrow> UserAdapterImpl" where
  "add ad user = ad\<lparr>database := create (database ad) user\<rparr>"

section \<open>Example records\<close>

text \<open>The records of the end-to-end scenario, and two more users.\<close>

definition alice :: obj where
  "alice = [(''id'', Str ''1''), (''username'', Str ''alice''), (''password'', Str ''pw'')]"

definition alice2 :: obj where
  "alice2 = [(''id'', Str ''1''), (''username'', Str ''alice2''), (''password'', Str ''pw'')]"

definition bob :: obj where
  "bob = [(''id'', Str ''2''), (''username'', Str ''bob''), (''password'', Str ''pw'')]"

definition carol :: obj where
  "carol = [(''id'', Str ''1''), (''username'', Str ''carol''), (''password'', Str ''pw'')]"

lemmas examples = alice_def alice2_def bob_def carol_def

lemmas evals = js_get_def strict_eq_def strict_neq_def has_id_def matches_def object_keys_def
  findIndex_def splice_arr_def find_db_def findById_def filter_db_def create_def update_def
  delete_def

section \<open>Facts about the array methods\<close>

lemma findIndex_from_none:
  "(\<forall>x\<in>set xs. \<not> p x) \<Longrightarrow> findIndex_from p xs k = - 1"
  by (induction xs arbitrary: k) auto

lemma findIndex_from_first:
  "\<exists>x\<in>set xs. p x \<Longrightarrow>
     \<exists>n. findIndex_from p xs k = k + int n \<and> n < length xs \<and> p (xs ! n)
        \<and> (\<forall>m<n. \<not> p (xs ! m))"
proof (induction xs arbitrary: k)
  case Nil
  then show ?case by simp
next
  case (Cons x xs)
  show ?case
  proof (cases "p x")
    case True
    then have "findIndex_from p (x # xs) k = k + int 0 \<and> 0 < length (x # xs)
        \<and> p ((x # xs) ! 0) \<and> (\<forall>m<0. \<not> p ((x # xs) ! m))"
      by simp
    then show ?thesis by blast
  next
    case False
    with Cons.prems have "\<exists>y\<in>set xs. p y" by simp
    from Cons.IH [OF this, of "k + 1"] obtain n where
      n: "findIndex_from p xs (k + 1) = k + 1 + int n" "n < length xs" "p (xs ! n)"
         "\<forall>m<n. \<not> p (xs ! m)"
      by blast
    have "\<forall>m<Suc n. \<not> p ((x # xs) ! m)"
    proof (intro allI impI)
      fix m assume "m < Suc n"
      then show "\<not> p ((x # xs) ! m)"
        using False n(4) by (cases m) auto
    qed
    with False n have "findIndex_from p (x # xs) k = k + int (Suc n)
        \<and> Suc n < length (x # xs) \<and> p ((x # xs) ! Suc n)
        \<and> (\<forall>m<Suc n. \<not> p ((x # xs) ! m))"
      by simp
    then show ?thesis by blast
  qed
qed

lemma findIndex_first:
  assumes "\<exists>x\<in>set xs. p x"
  shows "\<exists>n. findIndex p xs = int n \<and> n < length xs \<and> p (xs ! n) \<and> (\<forall>m<n. \<not> p (xs ! m))"
  using findIndex_from_first [OF assms, of 0] by (simp add: findIndex_def)

lemma findIndex_none: "(findIndex p xs = - 1) = (\<forall>x\<in>set xs. \<not> p x)"
proof
  assume a: "findIndex p xs = - 1"
  show "\<forall>x\<in>set xs. \<not> p x"
  proof (rule ccontr)
    assume "\<not> (\<forall>x\<in>set xs. \<not> p x)"
    then have "\<exists>x\<in>set xs. p x" by blast
    from findIndex_first [OF this] a show False by auto
  qed
next
  assume "\<forall>x\<in>set xs. \<not> p x"
  then show "findIndex p xs = - 1"
    by (simp add: findIndex_def findIndex_from_none)
qed

lemma find_first:
  "n < length xs \<Longrightarrow> p (xs ! n) \<Longrightarrow> \<forall>m<n. \<not> p (xs ! m) \<Longrightarrow> List.find p xs = Some (xs ! n)"
  by (subst find_Some_iff) blast

lemma find_append_Some: "List.find p xs = Some r \<Longrightarrow> List.find p (xs @ ys) = Some r"
  by (induction xs) (auto split: if_splits)

lemma find_append_None: "List.find p xs = None \<Longrightarrow> List.find p (xs @ ys) = List.find p ys"
  by (induction xs) (auto split: if_splits)

lemma find_update_irrelevant:
  "n < length xs \<Longrightarrow> \<not> p (xs ! n) \<Longrightarrow> \<not> p y \<Longrightarrow> List.find p (xs[n := y]) = List.find p xs"
proof (induction xs arbitrary: n)
  case Nil
  then show ?case by simp
next
  case (Cons x xs)
  then show ?case by (cases n) auto
qed

lemma find_update_behind:
  "m < n \<Longrightarrow> m < length xs \<Longrightarrow> p (xs ! m) \<Longrightarrow> List.find p (xs[n := y]) = List.find p xs"
proof (induction xs arbitrary: m n)
  case Nil
  then show ?case by simp
next
  case (Cons x xs)
  show ?case
  proof (cases "p x")
    case True
    with Cons.prems show ?thesis by (cases n) auto
  next
    case False
    with Cons.prems obtain m' n' where "m = Suc m'" "n = Suc n'"
      by (cases m; cases n) auto
    with Cons False show ?thesis by auto
  qed
qed

lemma find_update_first:
  assumes "n < length xs" "\<forall>m<n. \<not> p (xs ! m)" "p y"
  shows "List.find p (xs[n := y]) = Some y"
proof -
  have "List.find p (xs[n := y]) = Some ((xs[n := y]) ! n)"
    by (rule find_first) (use assms in auto)
  with assms show ?thesis by simp
qed

lemma find_remove_irrelevant:
  "n < length xs \<Longrightarrow> \<not> p (xs ! n) \<Longrightarrow>
     List.find p (take n xs @ drop (Suc n) xs) = List.find p xs"
proof (induction xs arbitrary: n)
  case Nil
  then show ?case by simp
next
  case (Cons x xs)
  then show ?case by (cases n) auto
qed

section \<open>Facts about update and delete\<close>

lemma has_id_iff: "has_id ident item = (js_get item ''id'' = Str ident)"
  by (auto simp add: has_id_def strict_eq_def)

lemma has_id_unique: "has_id i item \<Longrightarrow> has_id j item \<Longrightarrow> i = j"
  by (simp add: has_id_iff)

lemma update_missing:
  "\<forall>item\<in>set (store db). \<not> has_id ident item \<Longrightarrow>
     update db ident r = (Inl (Error ''Item not found''), db)"
  by (simp add: update_def findIndex_none)

lemma delete_missing:
  "\<forall>item\<in>set (store db). \<not> has_id ident item \<Longrightarrow>
     delete db ident = (Inl (Error ''Item not found''), db)"
  by (simp add: delete_def findIndex_none)

lemma update_present:
  assumes "\<exists>item\<in>set (store db). has_id ident item"
  shows "\<exists>n. n < length (store db) \<and> has_id ident (store db ! n)
           \<and> (\<forall>m<n. \<not> has_id ident (store db ! m))
           \<and> findIndex (has_id ident) (store db) = int n
           \<and> update db ident r = (Inr r, db\<lparr>store := (store db)[n := r]\<rparr>)"
proof -
  from findIndex_first [OF assms] obtain n where
    n: "findIndex (has_id ident) (store db) = int n" "n < length (store db)"
       "has_id ident (store db ! n)" "\<forall>m<n. \<not> has_id ident (store db ! m)"
    by blast
  then have "update db ident r = (Inr r, db\<lparr>store := (store db)[n := r]\<rparr>)"
    by (simp add: update_def)
  with n show ?thesis by blast
qed

lemma delete_present:
  assumes "\<exists>item\<in>set (store db). has_id ident item"
  shows "\<exists>n. n < length (store db) \<and> has_id ident (store db ! n)
           \<and> (\<forall>m<n. \<not> has_id ident (store db ! m))
           \<and> delete db ident
               = (Inr (), db\<lparr>store := take n (store db) @ drop (Suc n) (store db)\<rparr>)"
proof -
  from findIndex_first [OF assms] obtain n where
    n: "findIndex (has_id ident) (store db) = int n" "n < length (store db)"
       "has_id ident (store db ! n)" "\<forall>m<n. \<not> has_id ident (store db ! m)"
    by blast
  then have "delete db ident
      = (Inr (), db\<lparr>store := take n (store db) @ drop (Suc n) (store db)\<rparr>)"
    by (simp add: delete_def splice_arr_def)
  with n show ?thesis by blast
qed

section \<open>Facts about the predicate callback and the calls\<close>

lemma matches_keys_all:
  "matches_keys item ob keys = (\<forall>key\<in>set keys. strict_eq (js_get item key) (js_get ob key))"
  by (induction keys) (auto simp add: strict_neq_def)

lemma matches_all:
  "matches ob item = (\<forall>key\<in>set (map fst ob). strict_eq (js_get item key) (js_get ob key))"
  by (simp add: matches_def matches_keys_all object_keys_def)

lemma matches_empty: "matches [] item"
  by (simp add: matches_def object_keys_def)

lemma matches_single: "matches [(k, v)] item = strict_eq (js_get item k) v"
  by (simp add: matches_all js_get_def)

lemma object_keys_empty: "(object_keys ob = []) = (ob = [])"
  by (simp add: object_keys_def)

lemma read_keeps_db: "is_read c \<Longrightarrow> snd (exec c db) = db"
  by (cases c) simp_all

lemma read_returns: "is_read c \<Longrightarrow> \<exists>v. fst (exec c db) = Inr v"
  by (cases c) simp_all

lemma reads_keep_db: "\<forall>c\<in>set cs. is_read c \<Longrightarrow> run cs db = db"
  by (induction cs) (simp_all add: read_keeps_db)

lemma step_keeps_first:
  assumes f: "findById db i = Some r" and nd: "\<not> disturbs i db c"
  shows "findById (snd (exec c db)) i = Some r"
proof (cases c)
  case (Find ob)
  with f show ?thesis by simp
next
  case (FindById j)
  with f show ?thesis by simp
next
  case (Filter arg)
  with f show ?thesis by simp
next
  case (Create item)
  with f show ?thesis by (simp add: create_def findById_def find_append_Some)
next
  case (Update j item)
  with nd have ji: "j \<noteq> i" by simp
  show ?thesis
  proof (cases "\<exists>x\<in>set (store db). has_id j x")
    case False
    then have "update db j item = (Inl (Error ''Item not found''), db)"
      by (simp add: update_missing)
    with f Update show ?thesis by simp
  next
    case True
    from update_present [OF True, of item] obtain n where
      n: "n < length (store db)" "has_id j (store db ! n)"
         "findIndex (has_id j) (store db) = int n"
         "update db j item = (Inr item, db\<lparr>store := (store db)[n := item]\<rparr>)"
      by blast
    from n(2) ji have nn: "\<not> has_id i (store db ! n)"
      using has_id_unique by blast
    from f obtain k where
      k: "k < length (store db)" "has_id i (store db ! k)" "\<forall>m<k. \<not> has_id i (store db ! m)"
      by (auto simp add: findById_def find_Some_iff)
    then have "\<exists>x\<in>set (store db). has_id i x" by auto
    from findIndex_first [OF this] obtain k' where
      k': "findIndex (has_id i) (store db) = int k'" "k' < length (store db)"
          "has_id i (store db ! k')" "\<forall>m<k'. \<not> has_id i (store db ! m)"
      by blast
    have "List.find (has_id i) ((store db)[n := item]) = List.find (has_id i) (store db)"
    proof (cases "has_id i item")
      case False
      with n(1) nn show ?thesis by (simp add: find_update_irrelevant)
    next
      case True
      with nd Update ji n(3) k'(1) have "\<not> n < k'" by simp
      moreover from nn k'(3) have "n \<noteq> k'" by auto
      ultimately have "k' < n" by simp
      with k'(2,3) show ?thesis by (simp add: find_update_behind)
    qed
    with f Update n(4) show ?thesis by (simp add: findById_def)
  qed
next
  case (Delete j)
  with nd have ji: "j \<noteq> i" by simp
  show ?thesis
  proof (cases "\<exists>x\<in>set (store db). has_id j x")
    case False
    then have "delete db j = (Inl (Error ''Item not found''), db)"
      by (simp add: delete_missing)
    with f Delete show ?thesis by simp
  next
    case True
    from delete_present [OF True] obtain n where
      n: "n < length (store db)" "has_id j (store db ! n)"
         "delete db j = (Inr (), db\<lparr>store := take n (store db) @ drop (Suc n) (store db)\<rparr>)"
      by blast
    from n(2) ji have nn: "\<not> has_id i (store db ! n)"
      using has_id_unique by blast
    with n(1) have "List.find (has_id i) (take n (store db) @ drop (Suc n) (store db))
        = List.find (has_id i) (store db)"
      by (simp add: find_remove_irrelevant)
    with f Delete n(3) show ?thesis by (simp add: findById_def)
  qed
qed

lemma run_keeps_first:
  "findById db i = Some r \<Longrightarrow> undisturbed i cs db \<Longrightarrow> findById (run cs db) i = Some r"
proof (induction cs arbitrary: db)
  case Nil
  then show ?case by simp
next
  case (Cons c cs)
  from Cons.prems have "findById (snd (exec c db)) i = Some r"
    by (simp add: step_keeps_first)
  with Cons show ?case by simp
qed

section \<open>create\<close>

text \<open>
  C7. For every record and every database, \<^verbatim>\<open>create(record)\<close> returns normally and
  the store afterwards is the old store with the record appended at the end. No
  identifier is inspected: a record whose identifier is already present is appended
  like any other.
\<close>

theorem create_appends:
  "exec (Create r) db = (Inr Void, db\<lparr>store := store db @ [r]\<rparr>)
   \<and> store (snd (exec (Create r) db)) = store db @ [r]
   \<and> exec (Create r) (snd (exec (Create r) db))
       = (Inr Void, db\<lparr>store := store db @ [r, r]\<rparr>)"
  by (simp add: create_def)


section \<open>update and delete\<close>

text \<open>
  C2. For every database and every identifier that no stored record carries,
  \<^verbatim>\<open>update(id, r)\<close> and \<^verbatim>\<open>delete(id)\<close> throw the error "Item not found" and the
  database afterwards is the database before.
\<close>

theorem update_delete_missing_id:
  assumes "\<forall>item\<in>set (store db). \<not> has_id ident item"
  shows "update db ident r = (Inl (Error ''Item not found''), db)
       \<and> delete db ident = (Inl (Error ''Item not found''), db)
       \<and> exec (Update ident r) db = (Inl (Error ''Item not found''), db)
       \<and> exec (Delete ident) db = (Inl (Error ''Item not found''), db)"
  using assms by (simp add: update_missing delete_missing)

theorem update_delete_missing_id_witness:
  "update \<lparr>store = [alice]\<rparr> ''2'' bob = (Inl (Error ''Item not found''), \<lparr>store = [alice]\<rparr>)
   \<and> delete \<lparr>store = [alice]\<rparr> ''2'' = (Inl (Error ''Item not found''), \<lparr>store = [alice]\<rparr>)"
  using update_delete_missing_id [of "\<lparr>store = [alice]\<rparr>" "''2''" bob]
  by (simp add: has_id_iff js_get_def alice_def)

text \<open>
  C3, as the claim has it, fails where the replacement carries another identifier
  than the one addressed and a record ahead of the replaced position carries that
  identifier too: \<^verbatim>\<open>findById\<close> then returns the record ahead, not the replacement.
\<close>

theorem update_shadowed_counterexample:
  "has_id ''2'' bob \<and> has_id ''1'' carol
   \<and> update \<lparr>store = [alice, bob]\<rparr> ''2'' carol = (Inr carol, \<lparr>store = [alice, carol]\<rparr>)
   \<and> findById (snd (update \<lparr>store = [alice, bob]\<rparr> ''2'' carol)) ''1'' = Some alice
   \<and> alice \<noteq> carol"
  by (simp add: evals examples)

text \<open>
  C3 (amended). For every database holding a record whose identifier is \<open>ident\<close>,
  \<^verbatim>\<open>update(ident, r2)\<close> returns \<open>r2\<close> and replaces the first such record in place:
  the position \<open>n\<close> of the first match holds \<open>r2\<close> afterwards, every other position
  and the length are unchanged. Afterwards \<^verbatim>\<open>findById(ident)\<close> returns \<open>r2\<close> when
  \<open>r2\<close> carries \<open>ident\<close>; when \<open>r2\<close> carries another identifier \<open>j\<close>, \<^verbatim>\<open>findById(j)\<close>
  returns \<open>r2\<close> provided no record ahead of position \<open>n\<close> carries \<open>j\<close>.
\<close>

theorem update_replaces_first:
  assumes "\<exists>item\<in>set (store db). has_id ident item"
  shows "\<exists>n. n < length (store db) \<and> has_id ident (store db ! n)
           \<and> (\<forall>m<n. \<not> has_id ident (store db ! m))
           \<and> update db ident r2 = (Inr r2, db\<lparr>store := (store db)[n := r2]\<rparr>)
           \<and> exec (Update ident r2) db = (Inr (Item r2), db\<lparr>store := (store db)[n := r2]\<rparr>)
           \<and> length (store (snd (update db ident r2))) = length (store db)
           \<and> store (snd (update db ident r2)) ! n = r2
           \<and> (\<forall>m. m \<noteq> n \<longrightarrow> store (snd (update db ident r2)) ! m = store db ! m)
           \<and> (has_id ident r2 \<longrightarrow> findById (snd (update db ident r2)) ident = Some r2)
           \<and> (\<forall>j. has_id j r2 \<and> (\<forall>m<n. \<not> has_id j (store db ! m))
                 \<longrightarrow> findById (snd (update db ident r2)) j = Some r2)"
proof -
  from update_present [OF assms, of r2] obtain n where
    n: "n < length (store db)" "has_id ident (store db ! n)"
       "\<forall>m<n. \<not> has_id ident (store db ! m)"
       "update db ident r2 = (Inr r2, db\<lparr>store := (store db)[n := r2]\<rparr>)"
    by blast
  have shadow: "findById (snd (update db ident r2)) j = Some r2"
    if "has_id j r2" "\<forall>m<n. \<not> has_id j (store db ! m)" for j
    using that n(1) by (simp add: n(4) findById_def find_update_first)
  have e: "exec (Update ident r2) db = (Inr (Item r2), db\<lparr>store := (store db)[n := r2]\<rparr>)"
    by (simp add: n(4))
  have l: "length (store (snd (update db ident r2))) = length (store db)"
    by (simp add: n(4))
  have a: "store (snd (update db ident r2)) ! n = r2"
    using n(1) by (simp add: n(4))
  have b: "\<forall>m. m \<noteq> n \<longrightarrow> store (snd (update db ident r2)) ! m = store db ! m"
    by (simp add: n(4))
  have c: "has_id ident r2 \<longrightarrow> findById (snd (update db ident r2)) ident = Some r2"
    using shadow [of ident] n(3) by blast
  have d: "\<forall>j. has_id j r2 \<and> (\<forall>m<n. \<not> has_id j (store db ! m))
                 \<longrightarrow> findById (snd (update db ident r2)) j = Some r2"
    using shadow by blast
  from n e l a b c d show ?thesis by blast
qed

theorem update_replaces_first_witness:
  "(\<exists>item\<in>set (store \<lparr>store = [bob, alice, carol]\<rparr>). has_id ''1'' item)
   \<and> update \<lparr>store = [bob, alice, carol]\<rparr> ''1'' alice2
       = (Inr alice2, \<lparr>store = [bob, alice2, carol]\<rparr>)
   \<and> findById (snd (update \<lparr>store = [bob, alice, carol]\<rparr> ''1'' alice2)) ''1'' = Some alice2"
proof -
  have h: "\<exists>item\<in>set (store \<lparr>store = [bob, alice, carol]\<rparr>). has_id ''1'' item"
    by (simp add: has_id_iff js_get_def examples)
  from update_replaces_first [OF h, of alice2] obtain n where
    n: "n < length (store \<lparr>store = [bob, alice, carol]\<rparr>)"
       "has_id ''1'' (store \<lparr>store = [bob, alice, carol]\<rparr> ! n)"
       "\<forall>m<n. \<not> has_id ''1'' (store \<lparr>store = [bob, alice, carol]\<rparr> ! m)"
       "update \<lparr>store = [bob, alice, carol]\<rparr> ''1'' alice2
          = (Inr alice2, \<lparr>store = [bob, alice, carol]\<rparr>
               \<lparr>store := (store \<lparr>store = [bob, alice, carol]\<rparr>)[n := alice2]\<rparr>)"
       "has_id ''1'' alice2 \<longrightarrow>
          findById (snd (update \<lparr>store = [bob, alice, carol]\<rparr> ''1'' alice2)) ''1'' = Some alice2"
    by blast
  have a2: "has_id ''1'' alice2"
    by (simp add: has_id_iff js_get_def examples)
  have "\<not> has_id ''1'' bob" "has_id ''1'' alice"
    by (simp_all add: has_id_iff js_get_def examples)
  with n(1,2,3) have "n = 1"
    by (cases n) (auto simp add: less_Suc_eq)
  with n(4) n(5) a2 h show ?thesis by simp
qed

text \<open>
  C4. For every database holding a record whose identifier is \<open>ident\<close>,
  \<^verbatim>\<open>delete(ident)\<close> returns normally and removes the record at the position \<open>n\<close> of
  the first match and no other: the store is one shorter, the records before \<open>n\<close>
  keep their positions and the records after it move down by one, in order. A
  following \<^verbatim>\<open>filter\<close> sees the store without that occurrence, whatever its argument.
\<close>

theorem delete_removes_first:
  assumes "\<exists>item\<in>set (store db). has_id ident item"
  shows "\<exists>n. n < length (store db) \<and> has_id ident (store db ! n)
           \<and> (\<forall>m<n. \<not> has_id ident (store db ! m))
           \<and> delete db ident
               = (Inr (), db\<lparr>store := take n (store db) @ drop (Suc n) (store db)\<rparr>)
           \<and> exec (Delete ident) db
               = (Inr Void, db\<lparr>store := take n (store db) @ drop (Suc n) (store db)\<rparr>)
           \<and> length (store (snd (delete db ident))) + 1 = length (store db)
           \<and> (\<forall>m<n. store (snd (delete db ident)) ! m = store db ! m)
           \<and> (\<forall>m. n \<le> m \<and> m < length (store (snd (delete db ident)))
                 \<longrightarrow> store (snd (delete db ident)) ! m = store db ! Suc m)
           \<and> filter_db (snd (delete db ident)) None
               = take n (store db) @ drop (Suc n) (store db)
           \<and> (\<forall>arg. filter_db (snd (delete db ident)) arg
                 = filter_db (db\<lparr>store := take n (store db)\<rparr>) arg
                   @ filter_db (db\<lparr>store := drop (Suc n) (store db)\<rparr>) arg)"
proof -
  let ?s = "store db"
  from delete_present [OF assms] obtain n where
    n: "n < length ?s" "has_id ident (?s ! n)"
       "\<forall>m<n. \<not> has_id ident (?s ! m)"
       "delete db ident = (Inr (), db\<lparr>store := take n ?s @ drop (Suc n) ?s\<rparr>)"
    by blast
  let ?t = "take n ?s @ drop (Suc n) ?s"
  have st: "store (snd (delete db ident)) = ?t"
    by (simp add: n(4))
  have e: "exec (Delete ident) db = (Inr Void, db\<lparr>store := ?t\<rparr>)"
    by (simp add: n(4))
  have l: "length (store (snd (delete db ident))) + 1 = length ?s"
    using n(1) by (simp add: st)
  have a: "\<forall>m<n. store (snd (delete db ident)) ! m = ?s ! m"
    using n(1) by (simp add: st nth_append)
  have b: "\<forall>m. n \<le> m \<and> m < length (store (snd (delete db ident)))
                 \<longrightarrow> store (snd (delete db ident)) ! m = ?s ! Suc m"
  proof (intro allI impI)
    fix m assume m: "n \<le> m \<and> m < length (store (snd (delete db ident)))"
    have "length (take n ?s) = n" using n(1) by simp
    with m have "?t ! m = drop (Suc n) ?s ! (m - n)"
      by (simp add: nth_append)
    also have "\<dots> = ?s ! (Suc n + (m - n))"
      using m n(1) by (simp add: st)
    finally show "store (snd (delete db ident)) ! m = ?s ! Suc m"
      using m by (simp add: st)
  qed
  have f: "filter_db (snd (delete db ident)) None = ?t"
    by (simp add: st filter_db_def)
  have g: "\<forall>arg. filter_db (snd (delete db ident)) arg
                 = filter_db (db\<lparr>store := take n ?s\<rparr>) arg
                   @ filter_db (db\<lparr>store := drop (Suc n) ?s\<rparr>) arg"
    by (simp add: st filter_db_def split: option.split)
  from n e l a b f g show ?thesis by blast
qed

theorem delete_removes_first_witness:
  "(\<exists>item\<in>set (store \<lparr>store = [bob, alice, carol]\<rparr>). has_id ''1'' item)
   \<and> delete \<lparr>store = [bob, alice, carol]\<rparr> ''1'' = (Inr (), \<lparr>store = [bob, carol]\<rparr>)
   \<and> filter_db (snd (delete \<lparr>store = [bob, alice, carol]\<rparr> ''1'')) None = [bob, carol]"
proof -
  have h: "\<exists>item\<in>set (store \<lparr>store = [bob, alice, carol]\<rparr>). has_id ''1'' item"
    by (simp add: has_id_iff js_get_def examples)
  from delete_removes_first [OF h] obtain n where
    n: "n < length (store \<lparr>store = [bob, alice, carol]\<rparr>)"
       "has_id ''1'' (store \<lparr>store = [bob, alice, carol]\<rparr> ! n)"
       "\<forall>m<n. \<not> has_id ''1'' (store \<lparr>store = [bob, alice, carol]\<rparr> ! m)"
       "delete \<lparr>store = [bob, alice, carol]\<rparr> ''1''
          = (Inr (), \<lparr>store = [bob, alice, carol]\<rparr>
               \<lparr>store := take n (store \<lparr>store = [bob, alice, carol]\<rparr>)
                         @ drop (Suc n) (store \<lparr>store = [bob, alice, carol]\<rparr>)\<rparr>)"
       "filter_db (snd (delete \<lparr>store = [bob, alice, carol]\<rparr> ''1'')) None
          = take n (store \<lparr>store = [bob, alice, carol]\<rparr>)
              @ drop (Suc n) (store \<lparr>store = [bob, alice, carol]\<rparr>)"
    by blast
  have "\<not> has_id ''1'' bob" "has_id ''1'' alice"
    by (simp_all add: has_id_iff js_get_def examples)
  with n(1,2,3) have "n = 1"
    by (cases n) (auto simp add: less_Suc_eq)
  with n(4) n(5) h show ?thesis by simp
qed

section \<open>find, findById and filter\<close>

text \<open>
  C5. For every database, \<^verbatim>\<open>filter\<close> with its argument omitted or empty returns the
  stored records in store order; \<^verbatim>\<open>filter({k: v})\<close> returns, in store order, exactly
  the stored records whose property \<open>k\<close> is strictly equal (\<^verbatim>\<open>===\<close>) to \<open>v\<close>; and
  for any predicate object, exactly the stored records strictly equal to it on
  every one of its keys.
\<close>

theorem filter_db_selects:
  "filter_db db None = store db
   \<and> filter_db db (Some []) = store db
   \<and> filter_db db (Some [(k, v)]) = filter (\<lambda>item. strict_eq (js_get item k) v) (store db)
   \<and> filter_db db (Some ob)
       = filter (\<lambda>item. \<forall>key\<in>set (map fst ob). strict_eq (js_get item key) (js_get ob key))
           (store db)"
proof -
  have a: "filter_db db None = store db"
    by (simp add: filter_db_def)
  have b: "filter_db db (Some []) = store db"
    by (simp add: filter_db_def object_keys_def)
  have c: "filter_db db (Some [(k, v)])
      = filter (\<lambda>item. strict_eq (js_get item k) v) (store db)"
  proof -
    have "matches [(k, v)] = (\<lambda>item. strict_eq (js_get item k) v)"
      by (rule ext) (rule matches_single)
    then show ?thesis by (simp add: filter_db_def object_keys_def)
  qed
  have d: "filter_db db (Some ob)
       = filter (\<lambda>item. \<forall>key\<in>set (map fst ob). strict_eq (js_get item key) (js_get ob key))
           (store db)"
  proof (cases "ob = []")
    case True
    then show ?thesis by (simp add: b)
  next
    case False
    then have "filter_db db (Some ob) = filter (matches ob) (store db)"
      by (simp add: filter_db_def object_keys_empty)
    also have "matches ob = (\<lambda>item. \<forall>key\<in>set (map fst ob).
        strict_eq (js_get item key) (js_get ob key))"
      by (rule ext) (rule matches_all)
    finally show ?thesis .
  qed
  from a b c d show ?thesis by blast
qed

theorem filter_db_selects_witness:
  "filter_db \<lparr>store = [alice, bob, carol]\<rparr> None = [alice, bob, carol]
   \<and> filter_db \<lparr>store = [alice, bob, carol]\<rparr> (Some [(''id'', Str ''1'')]) = [alice, carol]
   \<and> filter_db \<lparr>store = [alice, bob, carol]\<rparr>
        (Some [(''id'', Str ''1''), (''username'', Str ''carol'')]) = [carol]
   \<and> filter_db \<lparr>store = [alice, bob, carol]\<rparr> (Some [(''password'', NaN)]) = []"
  using filter_db_selects [of "\<lparr>store = [alice, bob, carol]\<rparr>" "''id''" "Str ''1''"
      "[(''id'', Str ''1''), (''username'', Str ''carol'')]"]
    filter_db_selects [of "\<lparr>store = [alice, bob, carol]\<rparr>" "''password''" "NaN" "[]"]
  by (simp add: js_get_def strict_eq_def examples)

text \<open>
  C6. For every database and identifier, \<^verbatim>\<open>findById(id)\<close> equals \<^verbatim>\<open>find({id: id})\<close>.
  The result is absent exactly when no stored record carries the identifier, and
  otherwise is the record at the least position whose identifier is \<open>id\<close>.
\<close>

theorem findById_is_find:
  "findById db ident = find_db db [(''id'', Str ident)]
   \<and> (findById db ident = None)
       = (\<forall>item\<in>set (store db). js_get item ''id'' \<noteq> Str ident)
   \<and> (\<forall>r. findById db ident = Some r \<longrightarrow>
         (\<exists>n<length (store db). store db ! n = r \<and> js_get r ''id'' = Str ident
            \<and> (\<forall>m<n. js_get (store db ! m) ''id'' \<noteq> Str ident)))"
proof -
  have "matches [(''id'', Str ident)] = has_id ident"
    by (rule ext) (simp add: matches_single has_id_def)
  then have a: "findById db ident = find_db db [(''id'', Str ident)]"
    by (simp add: findById_def find_db_def)
  have b: "(findById db ident = None)
       = (\<forall>item\<in>set (store db). js_get item ''id'' \<noteq> Str ident)"
    by (auto simp add: findById_def find_None_iff has_id_iff)
  have c: "\<forall>r. findById db ident = Some r \<longrightarrow>
         (\<exists>n<length (store db). store db ! n = r \<and> js_get r ''id'' = Str ident
            \<and> (\<forall>m<n. js_get (store db ! m) ''id'' \<noteq> Str ident))"
    by (auto simp add: findById_def find_Some_iff has_id_iff)
  from a b c show ?thesis by blast
qed

theorem findById_is_find_witness:
  "findById \<lparr>store = [bob, alice, carol]\<rparr> ''1'' = Some alice
   \<and> find_db \<lparr>store = [bob, alice, carol]\<rparr> [(''id'', Str ''1'')] = Some alice
   \<and> findById \<lparr>store = [bob, alice, carol]\<rparr> ''3'' = None
   \<and> find_db \<lparr>store = [bob, alice, carol]\<rparr> [(''id'', Str ''3'')] = None"
  using findById_is_find [of "\<lparr>store = [bob, alice, carol]\<rparr>" "''1''"]
    findById_is_find [of "\<lparr>store = [bob, alice, carol]\<rparr>" "''3''"]
  by (simp add: js_get_def examples findById_def has_id_iff)

text \<open>
  C10. For every database, \<^verbatim>\<open>find({})\<close> returns the first stored record, and is
  absent exactly when the store is empty; \<^verbatim>\<open>filter({})\<close> returns the whole store.
\<close>

theorem find_db_empty_predicate:
  "find_db db [] = (case store db of [] \<Rightarrow> None | first # rest \<Rightarrow> Some first)
   \<and> (find_db db [] = None) = (store db = [])
   \<and> filter_db db (Some []) = store db
   \<and> find_db \<lparr>store = [alice, bob]\<rparr> [] = Some alice
   \<and> filter_db \<lparr>store = [alice, bob]\<rparr> (Some []) = [alice, bob]"
  by (cases "store db") (simp_all add: find_db_def filter_db_def matches_empty object_keys_def)

text \<open>
  C9. For every database and predicate, the reads \<^verbatim>\<open>find\<close>, \<^verbatim>\<open>findById\<close> and
  \<^verbatim>\<open>filter\<close> return normally and leave the database as it was, one call or many
  in sequence; when no stored record matches, the result is absent (\<^verbatim>\<open>find\<close>,
  \<^verbatim>\<open>findById\<close>) or empty (\<^verbatim>\<open>filter\<close>), not an error.
\<close>

theorem reads_have_no_effect:
  "(is_read c \<longrightarrow> snd (exec c db) = db \<and> (\<exists>v. fst (exec c db) = Inr v))
   \<and> ((\<forall>c\<in>set cs. is_read c) \<longrightarrow> run cs db = db)
   \<and> exec (Find ob) db = (Inr (Found (find_db db ob)), db)
   \<and> exec (FindById ident) db = (Inr (Found (findById db ident)), db)
   \<and> exec (Filter arg) db = (Inr (Items (filter_db db arg)), db)
   \<and> ((\<forall>item\<in>set (store db). \<not> matches ob item) \<longrightarrow>
        find_db db ob = None \<and> filter_db db (Some ob) = [])
   \<and> ((\<forall>item\<in>set (store db). \<not> has_id ident item) \<longrightarrow> findById db ident = None)"
proof -
  have a: "is_read c \<longrightarrow> snd (exec c db) = db \<and> (\<exists>v. fst (exec c db) = Inr v)"
    using read_keeps_db read_returns by blast
  have b: "(\<forall>c\<in>set cs. is_read c) \<longrightarrow> run cs db = db"
    using reads_keep_db by blast
  have c: "(\<forall>item\<in>set (store db). \<not> matches ob item) \<longrightarrow>
        find_db db ob = None \<and> filter_db db (Some ob) = []"
  proof
    assume h: "\<forall>item\<in>set (store db). \<not> matches ob item"
    then have f: "find_db db ob = None"
      by (simp add: find_db_def find_None_iff)
    from h have g: "filter (matches ob) (store db) = []"
      by (simp add: filter_empty_conv)
    have "filter_db db (Some ob) = []"
    proof (cases "ob = []")
      case True
      with h have "store db = []"
        by (cases "store db") (auto simp add: matches_empty)
      with True show ?thesis by (simp add: filter_db_def)
    next
      case False
      with g show ?thesis by (simp add: filter_db_def object_keys_empty)
    qed
    with f show "find_db db ob = None \<and> filter_db db (Some ob) = []" by simp
  qed
  have d: "(\<forall>item\<in>set (store db). \<not> has_id ident item) \<longrightarrow> findById db ident = None"
    by (simp add: findById_def find_None_iff)
  from a b c d show ?thesis by simp
qed

theorem reads_have_no_effect_witness:
  "is_read (Find [(''id'', Str ''3'')])
   \<and> exec (Find [(''id'', Str ''3'')]) \<lparr>store = [alice, bob]\<rparr>
       = (Inr (Found None), \<lparr>store = [alice, bob]\<rparr>)
   \<and> exec (FindById ''3'') \<lparr>store = [alice, bob]\<rparr> = (Inr (Found None), \<lparr>store = [alice, bob]\<rparr>)
   \<and> exec (Filter (Some [(''id'', Str ''3'')])) \<lparr>store = [alice, bob]\<rparr>
       = (Inr (Items []), \<lparr>store = [alice, bob]\<rparr>)
   \<and> run [Find [(''id'', Str ''3'')], FindById ''1'', Filter None] \<lparr>store = [alice, bob]\<rparr>
       = \<lparr>store = [alice, bob]\<rparr>"
  using reads_have_no_effect [of "Find [(''id'', Str ''3'')]" "\<lparr>store = [alice, bob]\<rparr>"
      "[Find [(''id'', Str ''3'')], FindById ''1'', Filter None]" "[(''id'', Str ''3'')]" "''3''"
      "Some [(''id'', Str ''3'')]"]
  by (simp add: matches_single has_id_iff js_get_def strict_eq_def examples)

section \<open>The adapter\<close>

text \<open>
  C8. For every identifier, the adapter's \<^verbatim>\<open>getById\<close> throws (and then throws
  "User not found") exactly when the store's \<^verbatim>\<open>findById\<close> returns absence;
  otherwise it returns exactly the record \<^verbatim>\<open>findById\<close> found. The store's read
  returns normally, and the adapter never throws the store's "Item not found".
\<close>

theorem getById_not_found_iff:
  "(getById ad ident = Inl (Error ''User not found'')) = (findById (database ad) ident = None)
   \<and> (\<exists>e. getById ad ident = Inl e) = (findById (database ad) ident = None)
   \<and> (getById ad ident = Inr user) = (findById (database ad) ident = Some user)
   \<and> getById ad ident \<noteq> Inl (Error ''Item not found'')
   \<and> exec (FindById ident) (database ad) = (Inr (Found (findById (database ad) ident)), database ad)"
  by (cases "findById (database ad) ident") (simp_all add: getById_def)

text \<open>
  The end of the scenario of the specification: after create, update and delete of
  the record with identifier 1 the adapter throws; before the delete it returns the
  updated record.
\<close>

theorem getById_not_found_iff_witness:
  "findById (run [Create alice, Update ''1'' alice2, Delete ''1''] \<lparr>store = []\<rparr>) ''1'' = None
   \<and> getById \<lparr>database = run [Create alice, Update ''1'' alice2, Delete ''1''] \<lparr>store = []\<rparr>\<rparr>
         ''1'' = Inl (Error ''User not found'')
   \<and> getById \<lparr>database = run [Create alice, Update ''1'' alice2] \<lparr>store = []\<rparr>\<rparr> ''1''
       = Inr alice2"
proof -
  have a: "run [Create alice, Update ''1'' alice2, Delete ''1''] \<lparr>store = []\<rparr> = \<lparr>store = []\<rparr>"
    by (simp add: evals examples)
  have b: "run [Create alice, Update ''1'' alice2] \<lparr>store = []\<rparr> = \<lparr>store = [alice2]\<rparr>"
    by (simp add: evals examples)
  have c: "findById \<lparr>store = []\<rparr> ''1'' = None" "findById \<lparr>store = [alice2]\<rparr> ''1'' = Some alice2"
    by (simp_all add: evals examples)
  from getById_not_found_iff [of "\<lparr>database = \<lparr>store = []\<rparr>\<rparr>" "''1''" alice2]
    getById_not_found_iff [of "\<lparr>database = \<lparr>store = [alice2]\<rparr>\<rparr>" "''1''" alice2]
    a b c
  show ?thesis by simp
qed

section \<open>A created record and findById\<close>

text \<open>
  C1, as the claim has it, fails when the store already holds a record with the
  identifier of the inserted one: \<^verbatim>\<open>findById\<close> returns the earlier record.
\<close>

theorem duplicate_id_counterexample:
  "has_id ''1'' carol
   \<and> findById (run [Create carol] \<lparr>store = [alice]\<rparr>) ''1'' = Some alice
   \<and> alice \<noteq> carol"
  by (simp add: evals examples)

text \<open>
  C1 (amended). For every record \<open>r\<close> with identifier \<open>i\<close> inserted via \<^verbatim>\<open>create\<close>
  into a store that holds no record with identifier \<open>i\<close>, \<^verbatim>\<open>findById(i)\<close> returns
  \<open>r\<close> after any sequence of calls in which no update or delete is addressed to
  \<open>i\<close> and no update puts a record carrying \<open>i\<close> ahead of \<open>r\<close>.
\<close>

theorem created_record_found:
  assumes "has_id i r"
    and "findById db i = None"
    and "undisturbed i cs (create db r)"
  shows "findById (run (Create r # cs) db) i = Some r"
proof -
  from assms(1,2) have "findById (create db r) i = Some r"
    by (simp add: findById_def create_def find_append_None)
  from run_keeps_first [OF this assms(3)] show ?thesis by simp
qed

theorem created_record_found_witness:
  "has_id ''1'' alice
   \<and> findById \<lparr>store = [bob]\<rparr> ''1'' = None
   \<and> undisturbed ''1'' [Create carol, Create bob, Delete ''2'', Update ''2'' alice2, Find [], Delete ''3'']
        (create \<lparr>store = [bob]\<rparr> alice)
   \<and> findById (run [Create alice, Create carol, Create bob, Delete ''2'',
        Update ''2'' alice2, Find [], Delete ''3''] \<lparr>store = [bob]\<rparr>) ''1'' = Some alice
   \<and> run [Create alice, Create carol, Create bob, Delete ''2'',
        Update ''2'' alice2, Find [], Delete ''3''] \<lparr>store = [bob]\<rparr>
       = \<lparr>store = [alice, carol, alice2]\<rparr>"
proof -
  have a: "has_id ''1'' alice"
    by (simp add: has_id_iff js_get_def examples)
  have b: "findById \<lparr>store = [bob]\<rparr> ''1'' = None"
    by (simp add: evals examples)
  have c: "undisturbed ''1'' [Create carol, Create bob, Delete ''2'', Update ''2'' alice2, Find [], Delete ''3'']
        (create \<lparr>store = [bob]\<rparr> alice)"
    by (simp add: evals examples)
  have d: "run [Create alice, Create carol, Create bob, Delete ''2'',
        Update ''2'' alice2, Find [], Delete ''3''] \<lparr>store = [bob]\<rparr>
       = \<lparr>store = [alice, carol, alice2]\<rparr>"
    by (simp add: evals examples)
  from created_record_found [OF a b c] a b c d show ?thesis by simp
qed

end
